theory Spec2Isabelle
  imports Complex_Main
begin

section \<open>Sheet-metal dashboard: the pricing calculator and the synthetic series generator\<close>

text \<open>
  The two functions of \<^verbatim>\<open>streamlit_app_2.py\<close> that carry logic are embedded:
  \<^verbatim>\<open>calculate_price\<close> (line 104) and \<^verbatim>\<open>generate_fake_data\<close> (line 87).

  Numbers: a Python float is an IEEE double. The calculator is embedded twice. In
  \<open>calculate_price_float\<close> every operation rounds its exact result to 53 significant bits,
  to nearest, ties to even; the exponent is unbounded, so overflow to infinity, NaN and
  subnormal numbers are outside the model. The equalities of the specification (the round trip,
  additivity) are settled there, since rounding decides them. \<open>calculate_price\<close> is the same
  expression in exact real arithmetic; the statements about its errors, sign and order are made
  there. The generator's columns are exact reals as well.
  Time: a \<^verbatim>\<open>datetime\<close> is an integer count of microseconds on an unbounded time line, so
  the limits of the calendar types are outside the model as well.
  Errors: an exception is a value of \<open>py_error\<close> on the left of a sum.
\<close>

subsection \<open>Exceptions\<close>

datatype py_error = ZeroDivisionError | ValueError

definition bind_result :: "py_error + 'a \<Rightarrow> ('a \<Rightarrow> py_error + 'b) \<Rightarrow> py_error + 'b" where
  "bind_result m f = (case m of Inl e \<Rightarrow> Inl e | Inr x \<Rightarrow> f x)"

subsection \<open>The pricing calculator\<close>

text \<open>
  \<^verbatim>\<open>
  def calculate_price(base_cost, margin, volume_discount=0):
      return base_cost / (1 - margin) * (1 - volume_discount)
  \<close>
  Python's \<^verbatim>\<open>/\<close> on numbers raises \<^verbatim>\<open>ZeroDivisionError\<close> when the divisor is zero; the
  function has no check of its own. The division comes first, the product second.
  This is the expression in exact arithmetic; \<open>calculate_price_float\<close> below rounds.
  The arguments are Python numbers, as in the function's contract; on NumPy operands (the
  cost surface of line 187) the same division gives an infinity and raises nothing.
\<close>

definition py_truediv :: "real \<Rightarrow> real \<Rightarrow> py_error + real" where
  "py_truediv a b = (if b = 0 then Inl ZeroDivisionError else Inr (a / b))"

definition calculate_price :: "real \<Rightarrow> real \<Rightarrow> real \<Rightarrow> py_error + real" where
  "calculate_price base_cost margin volume_discount =
     bind_result (py_truediv base_cost (1 - margin)) (\<lambda>q. Inr (q * (1 - volume_discount)))"

subsection \<open>Double-precision arithmetic\<close>

text \<open>
  \<open>round_double x\<close> is the double nearest to the real \<open>x\<close>: with \<open>2 ^ e \<le> \<bar>x\<bar> < 2 ^ (e + 1)\<close>
  the doubles around \<open>x\<close> are the multiples of \<open>ulp x = 2 ^ (e - 52)\<close>, and \<open>x / ulp x\<close> is
  rounded to the nearest integer, a tie going to the even one. Python's \<^verbatim>\<open>+\<close>, \<^verbatim>\<open>-\<close>,
  \<^verbatim>\<open>*\<close> and \<^verbatim>\<open>/\<close> on floats round the exact result this way, and \<^verbatim>\<open>/\<close> raises
  \<^verbatim>\<open>ZeroDivisionError\<close> on a zero divisor. A decimal literal such as \<^verbatim>\<open>0.3\<close> denotes
  \<open>round_double 0.3\<close>. \<open>unit_roundoff\<close> is the largest relative error of one rounding, and
  \<open>tolerance n\<close> the largest relative error that \<open>n\<close> roundings in a row accumulate.
\<close>

definition round_half_even :: "real \<Rightarrow> int" where
  "round_half_even y =
     (let f = \<lfloor>y\<rfloor>; r = y - of_int f
      in if r < 1 / 2 then f else if 1 / 2 < r then f + 1 else if even f then f else f + 1)"

definition binade :: "real \<Rightarrow> int" where
  "binade x = \<lfloor>log 2 \<bar>x\<bar>\<rfloor>"

definition ulp :: "real \<Rightarrow> real" where
  "ulp x = 2 powr (of_int (binade x) - 52)"

definition round_double :: "real \<Rightarrow> real" where
  "round_double x = (if x = 0 then 0 else of_int (round_half_even (x / ulp x)) * ulp x)"

definition unit_roundoff :: real where
  "unit_roundoff = 1 / 2 ^ 53"

definition tolerance :: "nat \<Rightarrow> real" where
  "tolerance n = (1 + unit_roundoff) ^ n - 1"

definition float_add :: "real \<Rightarrow> real \<Rightarrow> real" where
  "float_add a b = round_double (a + b)"

definition float_sub :: "real \<Rightarrow> real \<Rightarrow> real" where
  "float_sub a b = round_double (a - b)"

definition float_mul :: "real \<Rightarrow> real \<Rightarrow> real" where
  "float_mul a b = round_double (a * b)"

definition float_truediv :: "real \<Rightarrow> real \<Rightarrow> py_error + real" where
  "float_truediv a b = (if b = 0 then Inl ZeroDivisionError else Inr (round_double (a / b)))"

text \<open>The calculator on floats: line 105 with each of its four operations rounded.\<close>

definition calculate_price_float :: "real \<Rightarrow> real \<Rightarrow> real \<Rightarrow> py_error + real" where
  "calculate_price_float base_cost margin volume_discount =
     bind_result (float_truediv base_cost (float_sub 1 margin))
       (\<lambda>q. Inr (float_mul q (float_sub 1 volume_discount)))"

text \<open>
  Two expressions of the specification, on floats: the round trip
  \<^verbatim>\<open>calculate_price(c, margin, 0) * (1 - margin)\<close> and the sum of two prices
  \<^verbatim>\<open>calculate_price(c1, m, vd) + calculate_price(c2, m, vd)\<close>.
\<close>

definition round_trip :: "real \<Rightarrow> real \<Rightarrow> py_error + real" where
  "round_trip c margin =
     bind_result (calculate_price_float c margin 0) (\<lambda>p. Inr (float_mul p (float_sub 1 margin)))"

definition price_sum :: "real \<Rightarrow> real \<Rightarrow> real \<Rightarrow> real \<Rightarrow> py_error + real" where
  "price_sum c1 c2 margin volume_discount =
     bind_result (calculate_price_float c1 margin volume_discount) (\<lambda>p1.
     bind_result (calculate_price_float c2 margin volume_discount) (\<lambda>p2.
     Inr (float_add p1 p2)))"

subsection \<open>Time\<close>

text \<open>
  \<^verbatim>\<open>datetime.now()\<close> is a parameter \<open>now\<close>; \<^verbatim>\<open>timedelta(days=k)\<close> is \<open>k\<close> days of
  microseconds. \<^verbatim>\<open>pd.date_range(start, end, freq='D')\<close> lists \<open>start\<close>, \<open>start\<close> plus one
  day, and so on, as long as the stamp is not after \<open>end\<close>; it is empty when \<open>start\<close> is
  after \<open>end\<close>.
\<close>

type_synonym timestamp = int

definition timedelta :: "int \<Rightarrow> int" where
  "timedelta days = days * 86400000000"

function date_range :: "timestamp \<Rightarrow> timestamp \<Rightarrow> timestamp list" where
  "date_range start end_date =
     (if start \<le> end_date then start # date_range (start + timedelta 1) end_date else [])"
  by pat_completeness auto
termination
  by (relation "measure (\<lambda>(start, end_date). nat (end_date - start + 1))")
    (auto simp: timedelta_def)

declare date_range.simps [simp del]


subsection \<open>The random source\<close>

text \<open>
  The generator makes seven calls to \<^verbatim>\<open>np.random\<close>, in this order: three \<^verbatim>\<open>uniform\<close>
  (steel, aluminum, fiberglass), \<^verbatim>\<open>uniform\<close> and \<^verbatim>\<open>normal\<close> (labor), \<^verbatim>\<open>uniform\<close>
  (electricity) and \<^verbatim>\<open>randint\<close> (order volume). The random source is explicit: one stream of
  raw samples per call. A raw sample of \<^verbatim>\<open>uniform\<close> and \<^verbatim>\<open>randint\<close> is a number of
  \<open>[0, 1)\<close>, which \<open>rng_ok\<close> requires of the samples a call consumes; a raw sample of
  \<^verbatim>\<open>normal\<close> is any real, the standard normal deviate. The library scales them:
  \<^verbatim>\<open>uniform(low, high)\<close> is \<open>low + (high - low) * u\<close>, in \<open>[low, high)\<close>;
  \<^verbatim>\<open>normal(loc, scale)\<close> is \<open>loc + scale * z\<close>; \<^verbatim>\<open>randint(low, high)\<close> is an integer of
  \<open>[low, high)\<close>, here \<open>low + \<lfloor>(high - low) * u\<rfloor>\<close>. The probability law of the samples is
  the library's and is not part of the model. Each call raises \<^verbatim>\<open>ValueError\<close>
  (negative dimensions are not allowed) for a negative size.
\<close>

record rng =
  steel_src :: "nat \<Rightarrow> real"
  aluminum_src :: "nat \<Rightarrow> real"
  fiberglass_src :: "nat \<Rightarrow> real"
  labor_src :: "nat \<Rightarrow> real"
  normal_src :: "nat \<Rightarrow> real"
  electricity_src :: "nat \<Rightarrow> real"
  volume_src :: "nat \<Rightarrow> real"

definition unit_samples :: "nat \<Rightarrow> (nat \<Rightarrow> real) \<Rightarrow> bool" where
  "unit_samples n src = (\<forall>k\<in>{0..<n}. 0 \<le> src k \<and> src k < 1)"

definition rng_ok :: "nat \<Rightarrow> rng \<Rightarrow> bool" where
  "rng_ok n r =
     (unit_samples n (steel_src r) \<and> unit_samples n (aluminum_src r)
      \<and> unit_samples n (fiberglass_src r) \<and> unit_samples n (labor_src r)
      \<and> unit_samples n (electricity_src r) \<and> unit_samples n (volume_src r))"

definition uniform_draw :: "real \<Rightarrow> real \<Rightarrow> (nat \<Rightarrow> real) \<Rightarrow> nat \<Rightarrow> real" where
  "uniform_draw low high src k = low + (high - low) * src k"

definition normal_draw :: "real \<Rightarrow> real \<Rightarrow> (nat \<Rightarrow> real) \<Rightarrow> nat \<Rightarrow> real" where
  "normal_draw loc scale src k = loc + scale * src k"

definition randint_draw :: "int \<Rightarrow> int \<Rightarrow> (nat \<Rightarrow> real) \<Rightarrow> nat \<Rightarrow> int" where
  "randint_draw low high src k = low + \<lfloor>real_of_int (high - low) * src k\<rfloor>"

definition random_uniform :: "real \<Rightarrow> real \<Rightarrow> int \<Rightarrow> (nat \<Rightarrow> real) \<Rightarrow> py_error + real list" where
  "random_uniform low high len src =
     (if len < 0 then Inl ValueError else Inr (map (uniform_draw low high src) [0..<nat len]))"

definition random_normal :: "real \<Rightarrow> real \<Rightarrow> int \<Rightarrow> (nat \<Rightarrow> real) \<Rightarrow> py_error + real list" where
  "random_normal loc scale len src =
     (if len < 0 then Inl ValueError else Inr (map (normal_draw loc scale src) [0..<nat len]))"

definition random_randint :: "int \<Rightarrow> int \<Rightarrow> int \<Rightarrow> (nat \<Rightarrow> real) \<Rightarrow> py_error + int list" where
  "random_randint low high len src =
     (if len < 0 then Inl ValueError else Inr (map (randint_draw low high src) [0..<nat len]))"

subsection \<open>Arrays\<close>

text \<open>
  \<^verbatim>\<open>np.arange(days)\<close> is \<open>0, 1, ..., days - 1\<close> (empty for \<open>days \<le> 0\<close>); \<^verbatim>\<open>np.cumsum\<close>
  is the running total; \<open>+\<close> on two arrays of one length is elementwise (every pair of
  operands in the generator has the length \<open>days\<close>). \<open>seasonal\<close> is the
  source's \<^verbatim>\<open>np.sin(np.arange(days) * 2 * np.pi / 365) * amplitude\<close>.
\<close>

definition arange :: "int \<Rightarrow> real list" where
  "arange n = map real [0..<nat n]"

fun cumsum_from :: "real \<Rightarrow> real list \<Rightarrow> real list" where
  "cumsum_from acc [] = []"
| "cumsum_from acc (x # xs) = (acc + x) # cumsum_from (acc + x) xs"

definition cumsum :: "real list \<Rightarrow> real list" where
  "cumsum xs = cumsum_from 0 xs"

definition add_arrays :: "real list \<Rightarrow> real list \<Rightarrow> real list" where
  "add_arrays xs ys = map2 (+) xs ys"

definition seasonal :: "int \<Rightarrow> real \<Rightarrow> real list" where
  "seasonal days amplitude = map (\<lambda>x. sin (x * 2 * pi / 365) * amplitude) (arange days)"

subsection \<open>The series generator\<close>

text \<open>
  \<^verbatim>\<open>
  def generate_fake_data(days=365):
      end_date = datetime.now()
      start_date = end_date - timedelta(days=days-1)
      date_range = pd.date_range(start=start_date, end=end_date, freq='D')
      data = {
          'Date': date_range,
          'Steel_Cost': np.random.uniform(0.5, 1.0, days) + np.sin(np.arange(days) * 2 * np.pi / 365) * 0.1,
          'Aluminum_Cost': np.random.uniform(1.0, 1.5, days) + np.sin(np.arange(days) * 2 * np.pi / 365) * 0.15,
          'Fiberglass_Cost': np.random.uniform(0.3, 0.6, days) + np.sin(np.arange(days) * 2 * np.pi / 365) * 0.05,
          'Labor_Rate': np.random.uniform(20, 30, days) + np.cumsum(np.random.normal(0, 0.01, days)),
          'Electricity_Cost': np.random.uniform(0.1, 0.2, days) + np.sin(np.arange(days) * 2 * np.pi / 365) * 0.02,
          'Order_Volume': np.random.randint(50, 500, days) + np.sin(np.arange(days) * 2 * np.pi / 365) * 100
      }
      return pd.DataFrame(data)
  \<close>
  The table is a record of its columns; row \<open>i\<close> is entry \<open>i\<close> of each column.
  \<^verbatim>\<open>pd.DataFrame\<close> raises \<^verbatim>\<open>ValueError\<close> when the columns differ in length. The function
  has no check of \<open>days\<close>: the only failure is the one of the first library call.
\<close>

record frame =
  Date :: "timestamp list"
  Steel_Cost :: "real list"
  Aluminum_Cost :: "real list"
  Fiberglass_Cost :: "real list"
  Labor_Rate :: "real list"
  Electricity_Cost :: "real list"
  Order_Volume :: "real list"

definition pd_DataFrame :: "frame \<Rightarrow> py_error + frame" where
  "pd_DataFrame data =
     (let n = length (Date data) in
      if length (Steel_Cost data) = n \<and> length (Aluminum_Cost data) = n
         \<and> length (Fiberglass_Cost data) = n \<and> length (Labor_Rate data) = n
         \<and> length (Electricity_Cost data) = n \<and> length (Order_Volume data) = n
      then Inr data else Inl ValueError)"

definition generate_fake_data :: "int \<Rightarrow> timestamp \<Rightarrow> rng \<Rightarrow> py_error + frame" where
  "generate_fake_data days now r =
     (let end_date = now;
          start_date = end_date - timedelta (days - 1);
          dates = date_range start_date end_date
      in bind_result (random_uniform 0.5 1.0 days (steel_src r)) (\<lambda>steel_u.
         bind_result (random_uniform 1.0 1.5 days (aluminum_src r)) (\<lambda>aluminum_u.
         bind_result (random_uniform 0.3 0.6 days (fiberglass_src r)) (\<lambda>fiberglass_u.
         bind_result (random_uniform 20 30 days (labor_src r)) (\<lambda>labor_u.
         bind_result (random_normal 0 0.01 days (normal_src r)) (\<lambda>labor_e.
         bind_result (random_uniform 0.1 0.2 days (electricity_src r)) (\<lambda>electricity_u.
         bind_result (random_randint 50 500 days (volume_src r)) (\<lambda>volume_n.
         pd_DataFrame
           \<lparr>Date = dates,
            Steel_Cost = add_arrays steel_u (seasonal days 0.1),
            Aluminum_Cost = add_arrays aluminum_u (seasonal days 0.15),
            Fiberglass_Cost = add_arrays fiberglass_u (seasonal days 0.05),
            Labor_Rate = add_arrays labor_u (cumsum labor_e),
            Electricity_Cost = add_arrays electricity_u (seasonal days 0.02),
            Order_Volume = add_arrays (map real_of_int volume_n) (seasonal days 100)\<rparr>))))))))"

definition len_frame :: "frame \<Rightarrow> nat" where
  "len_frame df = length (Date df)"

text \<open>The value at row \<open>i\<close> of a column of the result, when there is one.\<close>

definition column_value :: "(frame \<Rightarrow> real list) \<Rightarrow> nat \<Rightarrow> py_error + frame \<Rightarrow> real option" where
  "column_value col i res =
     (case res of
        Inl e \<Rightarrow> None
      | Inr df \<Rightarrow> if i < length (col df) then Some (col df ! i) else None)"

text \<open>A random source whose samples are all the same, for concrete runs.\<close>

definition constant_rng :: "real \<Rightarrow> real \<Rightarrow> rng" where
  "constant_rng u z =
     \<lparr>steel_src = (\<lambda>k. u), aluminum_src = (\<lambda>k. u), fiberglass_src = (\<lambda>k. u),
      labor_src = (\<lambda>k. u), normal_src = (\<lambda>k. z), electricity_src = (\<lambda>k. u),
      volume_src = (\<lambda>k. u)\<rparr>"

text \<open>
  The closed form of the table that \<open>generate_fake_data\<close> returns for \<open>days \<ge> 0\<close>, proved
  equal to it in \<open>generate_fake_data_returns\<close> below.
\<close>

definition expected_frame :: "int \<Rightarrow> timestamp \<Rightarrow> rng \<Rightarrow> frame" where
  "expected_frame days now r =
     \<lparr>Date = map (\<lambda>k. now - timedelta (days - 1 - int k)) [0..<nat days],
      Steel_Cost = map (\<lambda>k. uniform_draw 0.5 1.0 (steel_src r) k + sin (real k * 2 * pi / 365) * 0.1) [0..<nat days],
      Aluminum_Cost = map (\<lambda>k. uniform_draw 1.0 1.5 (aluminum_src r) k + sin (real k * 2 * pi / 365) * 0.15) [0..<nat days],
      Fiberglass_Cost = map (\<lambda>k. uniform_draw 0.3 0.6 (fiberglass_src r) k + sin (real k * 2 * pi / 365) * 0.05) [0..<nat days],
      Labor_Rate = add_arrays (map (uniform_draw 20 30 (labor_src r)) [0..<nat days])
                      (cumsum (map (normal_draw 0 0.01 (normal_src r)) [0..<nat days])),
      Electricity_Cost = map (\<lambda>k. uniform_draw 0.1 0.2 (electricity_src r) k + sin (real k * 2 * pi / 365) * 0.02) [0..<nat days],
      Order_Volume = map (\<lambda>k. real_of_int (randint_draw 50 500 (volume_src r) k) + sin (real k * 2 * pi / 365) * 100) [0..<nat days]\<rparr>"

section \<open>Properties of the pricing calculator on floats\<close>

subsection \<open>Rounding and its error\<close>

lemma round_half_even_down:
  "of_int f \<le> y \<Longrightarrow> y < of_int f + 1 / 2 \<Longrightarrow> round_half_even y = f"
proof -
  assume a: "of_int f \<le> y" "y < of_int f + 1 / 2"
  then have "\<lfloor>y\<rfloor> = f" by (intro floor_unique) simp_all
  with a show ?thesis by (simp add: round_half_even_def Let_def)
qed

lemma round_half_even_up:
  "of_int f + 1 / 2 < y \<Longrightarrow> y < of_int f + 1 \<Longrightarrow> round_half_even y = f + 1"
proof -
  assume a: "of_int f + 1 / 2 < y" "y < of_int f + 1"
  then have "\<lfloor>y\<rfloor> = f" by (intro floor_unique) simp_all
  with a show ?thesis by (simp add: round_half_even_def Let_def)
qed

lemma round_half_even_tie:
  "y = of_int f + 1 / 2 \<Longrightarrow> round_half_even y = (if even f then f else f + 1)"
proof -
  assume a: "y = of_int f + 1 / 2"
  then have "\<lfloor>y\<rfloor> = f" by (intro floor_unique) simp_all
  with a show ?thesis by (simp add: round_half_even_def Let_def)
qed

lemma round_half_even_error: "\<bar>of_int (round_half_even y) - y\<bar> \<le> 1 / 2"
proof -
  have "of_int \<lfloor>y\<rfloor> \<le> y" and "y < of_int \<lfloor>y\<rfloor> + 1" by linarith+
  then show ?thesis
    by (auto simp: round_half_even_def Let_def)
qed

lemma binade_eq:
  assumes "2 powr of_int k \<le> \<bar>x\<bar>" and "\<bar>x\<bar> < 2 powr (of_int k + 1)"
  shows "binade x = k"
proof -
  have "0 < (2::real) powr of_int k" by simp
  with assms(1) have "0 < \<bar>x\<bar>" by linarith
  then show ?thesis
    unfolding binade_def using assms
    by (subst floor_log_eq_powr_iff) simp_all
qed

lemma binade_le: "x \<noteq> 0 \<Longrightarrow> 2 powr of_int (binade x) \<le> \<bar>x\<bar>"
proof -
  assume "x \<noteq> 0"
  then have pos: "0 < \<bar>x\<bar>" by simp
  have "of_int (binade x) \<le> log 2 \<bar>x\<bar>"
    by (simp add: binade_def)
  then have "2 powr of_int (binade x) \<le> 2 powr log 2 \<bar>x\<bar>"
    by (simp add: powr_le_cancel_iff)
  with pos show ?thesis by simp
qed

lemma round_double_error: "\<bar>round_double x - x\<bar> \<le> unit_roundoff * \<bar>x\<bar>"
proof (cases "x = 0")
  case True
  then show ?thesis by (simp add: round_double_def)
next
  case False
  let ?s = "ulp x"
  have s: "0 < ?s" by (simp add: ulp_def)
  have "round_double x - x = (of_int (round_half_even (x / ?s)) - x / ?s) * ?s"
    using False s by (simp add: round_double_def field_simps)
  then have "\<bar>round_double x - x\<bar> = \<bar>of_int (round_half_even (x / ?s)) - x / ?s\<bar> * ?s"
    using s by (simp add: abs_mult)
  also have "\<dots> \<le> 1 / 2 * ?s"
    using round_half_even_error [of "x / ?s"] s by (intro mult_right_mono) simp_all
  also have "1 / 2 * ?s = unit_roundoff * 2 powr of_int (binade x)"
    by (simp add: ulp_def unit_roundoff_def powr_diff)
  also have "\<dots> \<le> unit_roundoff * \<bar>x\<bar>"
    using binade_le [OF False] by (intro mult_left_mono) (simp_all add: unit_roundoff_def)
  finally show ?thesis .
qed

lemma unit_roundoff_bounds: "0 < unit_roundoff" "unit_roundoff < 1"
  by (simp_all add: unit_roundoff_def)

lemma round_double_factor:
  obtains \<delta> where "\<bar>\<delta>\<bar> \<le> unit_roundoff" and "round_double x = x * (1 + \<delta>)"
proof (cases "x = 0")
  case True
  have "\<bar>0::real\<bar> \<le> unit_roundoff" using unit_roundoff_bounds(1) by simp
  moreover have "round_double x = x * (1 + 0)" using True by (simp add: round_double_def)
  ultimately show ?thesis by (rule that)
next
  case False
  let ?d = "(round_double x - x) / x"
  have "\<bar>?d\<bar> = \<bar>round_double x - x\<bar> / \<bar>x\<bar>" by (simp add: abs_divide)
  also have "\<dots> \<le> unit_roundoff * \<bar>x\<bar> / \<bar>x\<bar>"
    using round_double_error [of x] False by (intro divide_right_mono) simp_all
  also have "\<dots> = unit_roundoff" using False by simp
  finally have "\<bar>?d\<bar> \<le> unit_roundoff" .
  moreover have "round_double x = x * (1 + ?d)" using False by (simp add: field_simps)
  ultimately show ?thesis by (rule that)
qed

lemma round_double_nonzero: "x \<noteq> 0 \<Longrightarrow> round_double x \<noteq> 0"
proof
  assume nz: "x \<noteq> 0" and z: "round_double x = 0"
  from round_double_error [of x] z have "\<bar>x\<bar> \<le> unit_roundoff * \<bar>x\<bar>" by simp
  moreover have "unit_roundoff * \<bar>x\<bar> < 1 * \<bar>x\<bar>"
    using nz unit_roundoff_bounds(2) by (intro mult_strict_right_mono) simp_all
  ultimately show False by simp
qed

lemma round_double_one: "round_double 1 = 1"
proof -
  have b: "binade 1 = 0" by (rule binade_eq) simp_all
  have u: "ulp 1 = 1 / 2 ^ 52" by (simp add: ulp_def b powr_neg_numeral)
  have "round_half_even (2 ^ 52) = 2 ^ 52"
    by (rule round_half_even_down) simp_all
  then show ?thesis by (simp add: round_double_def u)
qed

lemma tolerance_nonneg: "0 \<le> tolerance n"
proof -
  have "1 \<le> (1 + unit_roundoff) ^ n"
    using unit_roundoff_bounds(1) by (intro one_le_power) simp
  then show ?thesis by (simp add: tolerance_def)
qed

lemma tolerance_zero: "\<bar>(1::real) - 1\<bar> \<le> tolerance 0"
  by (simp add: tolerance_def)

lemma tolerance_step:
  assumes "\<bar>a - 1\<bar> \<le> tolerance n" and "\<bar>\<delta>\<bar> \<le> unit_roundoff"
  shows "\<bar>a * (1 + \<delta>) - 1\<bar> \<le> tolerance (Suc n)"
proof -
  let ?u = unit_roundoff
  have "\<bar>a\<bar> \<le> \<bar>a - 1\<bar> + 1" by linarith
  with assms(1) have a: "\<bar>a\<bar> \<le> (1 + ?u) ^ n" by (simp add: tolerance_def)
  have "\<bar>a * \<delta>\<bar> = \<bar>a\<bar> * \<bar>\<delta>\<bar>" by (rule abs_mult)
  also have "\<dots> \<le> (1 + ?u) ^ n * ?u"
    using a assms(2) unit_roundoff_bounds(1) by (intro mult_mono) simp_all
  finally have ad: "\<bar>a * \<delta>\<bar> \<le> (1 + ?u) ^ n * ?u" .
  have "a * (1 + \<delta>) - 1 = (a - 1) + a * \<delta>" by (simp add: algebra_simps)
  then have "\<bar>a * (1 + \<delta>) - 1\<bar> \<le> \<bar>a - 1\<bar> + \<bar>a * \<delta>\<bar>" by simp
  also have "\<dots> \<le> ((1 + ?u) ^ n - 1) + (1 + ?u) ^ n * ?u"
    using assms(1) ad by (simp add: tolerance_def)
  also have "\<dots> = tolerance (Suc n)" by (simp add: tolerance_def algebra_simps)
  finally show ?thesis .
qed

lemma float_sub_nonzero: "m \<noteq> 1 \<Longrightarrow> float_sub 1 m \<noteq> 0"
  unfolding float_sub_def by (rule round_double_nonzero) simp

lemma float_sub_one_zero: "float_sub 1 0 = 1"
  by (simp add: float_sub_def round_double_one)

lemma calculate_price_float_value:
  "m \<noteq> 1 \<Longrightarrow>
     calculate_price_float c m vd =
       Inr (float_mul (round_double (c / float_sub 1 m)) (float_sub 1 vd))"
  by (simp add: calculate_price_float_def float_truediv_def bind_result_def float_sub_nonzero)

lemma calculate_price_float_one:
  "calculate_price_float c 1 vd = Inl ZeroDivisionError"
  by (simp add: calculate_price_float_def float_truediv_def bind_result_def float_sub_def
      round_double_def)

lemma calculate_price_float_factor:
  assumes "m \<noteq> 1"
  obtains a where "\<bar>a - 1\<bar> \<le> tolerance 2"
    and "calculate_price_float c m vd = Inr (c * (float_sub 1 vd / float_sub 1 m) * a)"
proof -
  let ?d = "float_sub 1 m" and ?k = "float_sub 1 vd"
  obtain e1 where e1: "\<bar>e1\<bar> \<le> unit_roundoff"
    and q: "round_double (c / ?d) = c / ?d * (1 + e1)"
    by (rule round_double_factor)
  obtain e2 where e2: "\<bar>e2\<bar> \<le> unit_roundoff"
    and p: "round_double (round_double (c / ?d) * ?k) = round_double (c / ?d) * ?k * (1 + e2)"
    by (rule round_double_factor)
  have "\<bar>1 * (1 + e1) - 1\<bar> \<le> tolerance (Suc 0)"
    using tolerance_zero e1 by (rule tolerance_step)
  then have "\<bar>1 * (1 + e1) * (1 + e2) - 1\<bar> \<le> tolerance (Suc (Suc 0))"
    using e2 by (rule tolerance_step)
  then have near: "\<bar>(1 + e1) * (1 + e2) - 1\<bar> \<le> tolerance 2"
    by (simp add: numeral_2_eq_2)
  have "round_double (round_double (c / ?d) * ?k) = round_double (c / ?d) * ?k * (1 + e2)"
    by (rule p)
  also have "\<dots> = c / ?d * (1 + e1) * ?k * (1 + e2)"
    by (simp only: q)
  also have "\<dots> = c * (?k / ?d) * ((1 + e1) * (1 + e2))"
    by simp
  finally have "calculate_price_float c m vd = Inr (c * (?k / ?d) * ((1 + e1) * (1 + e2)))"
    using assms by (simp add: calculate_price_float_value float_mul_def)
  with near show ?thesis
    by (rule that)
qed

subsection \<open>Rounding at concrete numbers\<close>

lemma ulp_pos_exp:
  assumes "2 ^ n \<le> \<bar>x\<bar>" and "\<bar>x\<bar> < 2 * 2 ^ n"
  shows "ulp x = 2 ^ n / 2 ^ 52"
proof -
  have p: "(2::real) powr of_int (int n) = 2 ^ n"
    by (simp add: powr_realpow)
  have q: "(2::real) powr (of_int (int n) + 1) = 2 * 2 ^ n"
    by (simp add: powr_add powr_realpow)
  have b: "binade x = int n"
    using assms by (intro binade_eq) (simp_all only: p q)
  have "ulp x = 2 powr (of_int (int n) - 52)"
    by (simp only: ulp_def b)
  also have "\<dots> = 2 powr of_int (int n) / 2 powr 52"
    by (rule powr_diff)
  also have "\<dots> = 2 ^ n / 2 ^ 52"
    by (simp only: p) simp
  finally show ?thesis .
qed

lemma ulp_neg_exp:
  assumes "1 / 2 ^ n \<le> \<bar>x\<bar>" and "\<bar>x\<bar> < 2 / 2 ^ n"
  shows "ulp x = 1 / 2 ^ (n + 52)"
proof -
  have p: "(2::real) powr of_int (- int n) = 1 / 2 ^ n"
    by (simp add: powr_minus powr_realpow divide_inverse)
  have "(2::real) powr (of_int (- int n) + 1) = 2 powr of_int (- int n) * 2 powr 1"
    by (rule powr_add)
  then have q: "(2::real) powr (of_int (- int n) + 1) = 2 / 2 ^ n"
    by (simp only: p) simp
  have b: "binade x = - int n"
    using assms by (intro binade_eq) (simp_all only: p q)
  have "ulp x = 2 powr (of_int (- int n) - 52)"
    by (simp only: ulp_def b)
  also have "\<dots> = 2 powr of_int (- int n) / 2 powr 52"
    by (rule powr_diff)
  also have "\<dots> = 1 / 2 ^ n / 2 ^ 52"
    by (simp only: p) simp
  also have "\<dots> = 1 / 2 ^ (n + 52)"
    by (simp add: power_add)
  finally show ?thesis .
qed

lemma round_double_eval:
  assumes "x \<noteq> 0" and "ulp x = s" and "round_half_even (x / s) = f"
  shows "round_double x = of_int f * s"
  using assms by (simp add: round_double_def)

lemma double_0_39: "round_double 0.39 = 3512807709348987 / 2 ^ 53"
proof -
  have "round_double (0.39) = of_int (7025615418697973 + 1) * (1 / 2 ^ (2 + 52))"
  proof (rule round_double_eval)
    show "(0.39 :: real) \<noteq> 0" by simp
    show "ulp (0.39) = 1 / 2 ^ (2 + 52)" by (rule ulp_neg_exp) simp_all
    show "round_half_even ((0.39) / (1 / 2 ^ (2 + 52))) = 7025615418697973 + 1"
      by (rule round_half_even_up) simp_all
  qed
  also have "of_int (7025615418697973 + 1) * (1 / 2 ^ (2 + 52)) = (3512807709348987 / 2 ^ 53 :: real)" by simp
  finally show ?thesis .
qed

lemma double_0_3: "round_double 0.3 = 5404319552844595 / 2 ^ 54"
proof -
  have "round_double (0.3) = of_int (5404319552844595) * (1 / 2 ^ (2 + 52))"
  proof (rule round_double_eval)
    show "(0.3 :: real) \<noteq> 0" by simp
    show "ulp (0.3) = 1 / 2 ^ (2 + 52)" by (rule ulp_neg_exp) simp_all
    show "round_half_even ((0.3) / (1 / 2 ^ (2 + 52))) = 5404319552844595"
      by (rule round_half_even_down) simp_all
  qed
  also have "of_int (5404319552844595) * (1 / 2 ^ (2 + 52)) = (5404319552844595 / 2 ^ 54 :: real)" by simp
  finally show ?thesis .
qed

lemma double_0_7: "round_double 0.7 = 3152519739159347 / 2 ^ 52"
proof -
  have "round_double (0.7) = of_int (6305039478318694) * (1 / 2 ^ (1 + 52))"
  proof (rule round_double_eval)
    show "(0.7 :: real) \<noteq> 0" by simp
    show "ulp (0.7) = 1 / 2 ^ (1 + 52)" by (rule ulp_neg_exp) simp_all
    show "round_half_even ((0.7) / (1 / 2 ^ (1 + 52))) = 6305039478318694"
      by (rule round_half_even_down) simp_all
  qed
  also have "of_int (6305039478318694) * (1 / 2 ^ (1 + 52)) = (3152519739159347 / 2 ^ 52 :: real)" by simp
  finally show ?thesis .
qed

lemma sub_1_m39: "float_sub 1 (3512807709348987 / 2 ^ 53) = 5494391545392005 / 2 ^ 53"
proof -
  have "round_double (1 - 3512807709348987 / 2 ^ 53) = of_int (5494391545392005) * (1 / 2 ^ (1 + 52))"
  proof (rule round_double_eval)
    show "(1 - 3512807709348987 / 2 ^ 53 :: real) \<noteq> 0" by simp
    show "ulp (1 - 3512807709348987 / 2 ^ 53) = 1 / 2 ^ (1 + 52)" by (rule ulp_neg_exp) simp_all
    show "round_half_even ((1 - 3512807709348987 / 2 ^ 53) / (1 / 2 ^ (1 + 52))) = 5494391545392005"
      by (rule round_half_even_down) simp_all
  qed
  also have "of_int (5494391545392005) * (1 / 2 ^ (1 + 52)) = (5494391545392005 / 2 ^ 53 :: real)" by simp
  finally show ?thesis by (simp only: float_sub_def)
qed

lemma div_10_d61: "round_double (10 / (5494391545392005 / 2 ^ 53)) = 4614343880502557 / 2 ^ 48"
proof -
  have "round_double (10 / (5494391545392005 / 2 ^ 53)) = of_int (4614343880502557) * (2 ^ 4 / 2 ^ 52)"
  proof (rule round_double_eval)
    show "(10 / (5494391545392005 / 2 ^ 53) :: real) \<noteq> 0" by simp
    show "ulp (10 / (5494391545392005 / 2 ^ 53)) = 2 ^ 4 / 2 ^ 52" by (rule ulp_pos_exp) simp_all
    show "round_half_even ((10 / (5494391545392005 / 2 ^ 53)) / (2 ^ 4 / 2 ^ 52)) = 4614343880502557"
      by (rule round_half_even_down) simp_all
  qed
  also have "of_int (4614343880502557) * (2 ^ 4 / 2 ^ 52) = (4614343880502557 / 2 ^ 48 :: real)" by simp
  finally show ?thesis .
qed

lemma mul_q_1: "float_mul (4614343880502557 / 2 ^ 48) 1 = 4614343880502557 / 2 ^ 48"
proof -
  have "round_double (4614343880502557 / 2 ^ 48 * 1) = of_int (4614343880502557) * (2 ^ 4 / 2 ^ 52)"
  proof (rule round_double_eval)
    show "(4614343880502557 / 2 ^ 48 * 1 :: real) \<noteq> 0" by simp
    show "ulp (4614343880502557 / 2 ^ 48 * 1) = 2 ^ 4 / 2 ^ 52" by (rule ulp_pos_exp) simp_all
    show "round_half_even ((4614343880502557 / 2 ^ 48 * 1) / (2 ^ 4 / 2 ^ 52)) = 4614343880502557"
      by (rule round_half_even_down) simp_all
  qed
  also have "of_int (4614343880502557) * (2 ^ 4 / 2 ^ 52) = (4614343880502557 / 2 ^ 48 :: real)" by simp
  finally show ?thesis by (simp only: float_mul_def)
qed

lemma mul_q_d61: "float_mul (4614343880502557 / 2 ^ 48) (5494391545392005 / 2 ^ 53) = 5629499534213119 / 2 ^ 49"
proof -
  have "round_double (4614343880502557 / 2 ^ 48 * (5494391545392005 / 2 ^ 53)) = of_int (5629499534213119) * (2 ^ 3 / 2 ^ 52)"
  proof (rule round_double_eval)
    show "(4614343880502557 / 2 ^ 48 * (5494391545392005 / 2 ^ 53) :: real) \<noteq> 0" by simp
    show "ulp (4614343880502557 / 2 ^ 48 * (5494391545392005 / 2 ^ 53)) = 2 ^ 3 / 2 ^ 52" by (rule ulp_pos_exp) simp_all
    show "round_half_even ((4614343880502557 / 2 ^ 48 * (5494391545392005 / 2 ^ 53)) / (2 ^ 3 / 2 ^ 52)) = 5629499534213119"
      by (rule round_half_even_down) simp_all
  qed
  also have "of_int (5629499534213119) * (2 ^ 3 / 2 ^ 52) = (5629499534213119 / 2 ^ 49 :: real)" by simp
  finally show ?thesis by (simp only: float_mul_def)
qed

lemma sub_1_m3: "float_sub 1 (5404319552844595 / 2 ^ 54) = 3152519739159347 / 2 ^ 52"
proof -
  have "round_double (1 - 5404319552844595 / 2 ^ 54) = of_int ((if even (6305039478318694::int) then 6305039478318694 else 6305039478318694 + 1)) * (1 / 2 ^ (1 + 52))"
  proof (rule round_double_eval)
    show "(1 - 5404319552844595 / 2 ^ 54 :: real) \<noteq> 0" by simp
    show "ulp (1 - 5404319552844595 / 2 ^ 54) = 1 / 2 ^ (1 + 52)" by (rule ulp_neg_exp) simp_all
    show "round_half_even ((1 - 5404319552844595 / 2 ^ 54) / (1 / 2 ^ (1 + 52))) = (if even (6305039478318694::int) then 6305039478318694 else 6305039478318694 + 1)"
      by (rule round_half_even_tie) simp
  qed
  also have "of_int ((if even (6305039478318694::int) then 6305039478318694 else 6305039478318694 + 1)) * (1 / 2 ^ (1 + 52)) = (3152519739159347 / 2 ^ 52 :: real)" by simp
  finally show ?thesis by (simp only: float_sub_def)
qed

lemma div_10_d7: "round_double (10 / (3152519739159347 / 2 ^ 52)) = 8042142191733029 / 2 ^ 49"
proof -
  have "round_double (10 / (3152519739159347 / 2 ^ 52)) = of_int (8042142191733029) * (2 ^ 3 / 2 ^ 52)"
  proof (rule round_double_eval)
    show "(10 / (3152519739159347 / 2 ^ 52) :: real) \<noteq> 0" by simp
    show "ulp (10 / (3152519739159347 / 2 ^ 52)) = 2 ^ 3 / 2 ^ 52" by (rule ulp_pos_exp) simp_all
    show "round_half_even ((10 / (3152519739159347 / 2 ^ 52)) / (2 ^ 3 / 2 ^ 52)) = 8042142191733029"
      by (rule round_half_even_down) simp_all
  qed
  also have "of_int (8042142191733029) * (2 ^ 3 / 2 ^ 52) = (8042142191733029 / 2 ^ 49 :: real)" by simp
  finally show ?thesis .
qed

lemma mul_q7_1: "float_mul (8042142191733029 / 2 ^ 49) 1 = 8042142191733029 / 2 ^ 49"
proof -
  have "round_double (8042142191733029 / 2 ^ 49 * 1) = of_int (8042142191733029) * (2 ^ 3 / 2 ^ 52)"
  proof (rule round_double_eval)
    show "(8042142191733029 / 2 ^ 49 * 1 :: real) \<noteq> 0" by simp
    show "ulp (8042142191733029 / 2 ^ 49 * 1) = 2 ^ 3 / 2 ^ 52" by (rule ulp_pos_exp) simp_all
    show "round_half_even ((8042142191733029 / 2 ^ 49 * 1) / (2 ^ 3 / 2 ^ 52)) = 8042142191733029"
      by (rule round_half_even_down) simp_all
  qed
  also have "of_int (8042142191733029) * (2 ^ 3 / 2 ^ 52) = (8042142191733029 / 2 ^ 49 :: real)" by simp
  finally show ?thesis by (simp only: float_mul_def)
qed

lemma add_3_7: "float_add 3 7 = 10"
proof -
  have "round_double (3 + 7) = of_int (5629499534213120) * (2 ^ 3 / 2 ^ 52)"
  proof (rule round_double_eval)
    show "(3 + 7 :: real) \<noteq> 0" by simp
    show "ulp (3 + 7) = 2 ^ 3 / 2 ^ 52" by (rule ulp_pos_exp) simp_all
    show "round_half_even ((3 + 7) / (2 ^ 3 / 2 ^ 52)) = 5629499534213120"
      by (rule round_half_even_down) simp_all
  qed
  also have "of_int (5629499534213120) * (2 ^ 3 / 2 ^ 52) = (10 :: real)" by simp
  finally show ?thesis by (simp only: float_add_def)
qed

lemma div_3_d7: "round_double (3 / (3152519739159347 / 2 ^ 52)) = 4825285315039817 / 2 ^ 50"
proof -
  have "round_double (3 / (3152519739159347 / 2 ^ 52)) = of_int (4825285315039817) * (2 ^ 2 / 2 ^ 52)"
  proof (rule round_double_eval)
    show "(3 / (3152519739159347 / 2 ^ 52) :: real) \<noteq> 0" by simp
    show "ulp (3 / (3152519739159347 / 2 ^ 52)) = 2 ^ 2 / 2 ^ 52" by (rule ulp_pos_exp) simp_all
    show "round_half_even ((3 / (3152519739159347 / 2 ^ 52)) / (2 ^ 2 / 2 ^ 52)) = 4825285315039817"
      by (rule round_half_even_down) simp_all
  qed
  also have "of_int (4825285315039817) * (2 ^ 2 / 2 ^ 52) = (4825285315039817 / 2 ^ 50 :: real)" by simp
  finally show ?thesis .
qed

lemma mul_p3_1: "float_mul (4825285315039817 / 2 ^ 50) 1 = 4825285315039817 / 2 ^ 50"
proof -
  have "round_double (4825285315039817 / 2 ^ 50 * 1) = of_int (4825285315039817) * (2 ^ 2 / 2 ^ 52)"
  proof (rule round_double_eval)
    show "(4825285315039817 / 2 ^ 50 * 1 :: real) \<noteq> 0" by simp
    show "ulp (4825285315039817 / 2 ^ 50 * 1) = 2 ^ 2 / 2 ^ 52" by (rule ulp_pos_exp) simp_all
    show "round_half_even ((4825285315039817 / 2 ^ 50 * 1) / (2 ^ 2 / 2 ^ 52)) = 4825285315039817"
      by (rule round_half_even_down) simp_all
  qed
  also have "of_int (4825285315039817) * (2 ^ 2 / 2 ^ 52) = (4825285315039817 / 2 ^ 50 :: real)" by simp
  finally show ?thesis by (simp only: float_mul_def)
qed

lemma div_7_d7: "round_double (7 / (3152519739159347 / 2 ^ 52)) = 10"
proof -
  have "round_double (7 / (3152519739159347 / 2 ^ 52)) = of_int (5629499534213120) * (2 ^ 3 / 2 ^ 52)"
  proof (rule round_double_eval)
    show "(7 / (3152519739159347 / 2 ^ 52) :: real) \<noteq> 0" by simp
    show "ulp (7 / (3152519739159347 / 2 ^ 52)) = 2 ^ 3 / 2 ^ 52" by (rule ulp_pos_exp) simp_all
    show "round_half_even ((7 / (3152519739159347 / 2 ^ 52)) / (2 ^ 3 / 2 ^ 52)) = 5629499534213120"
      by (rule round_half_even_down) simp_all
  qed
  also have "of_int (5629499534213120) * (2 ^ 3 / 2 ^ 52) = (10 :: real)" by simp
  finally show ?thesis .
qed

lemma mul_10_1: "float_mul 10 1 = 10"
proof -
  have "round_double (10 * 1) = of_int (5629499534213120) * (2 ^ 3 / 2 ^ 52)"
  proof (rule round_double_eval)
    show "(10 * 1 :: real) \<noteq> 0" by simp
    show "ulp (10 * 1) = 2 ^ 3 / 2 ^ 52" by (rule ulp_pos_exp) simp_all
    show "round_half_even ((10 * 1) / (2 ^ 3 / 2 ^ 52)) = 5629499534213120"
      by (rule round_half_even_down) simp_all
  qed
  also have "of_int (5629499534213120) * (2 ^ 3 / 2 ^ 52) = (10 :: real)" by simp
  finally show ?thesis by (simp only: float_mul_def)
qed

lemma add_p3_10: "float_add (4825285315039817 / 2 ^ 50) 10 = 2010535547933257 / 2 ^ 47"
proof -
  have "round_double (4825285315039817 / 2 ^ 50 + 10) = of_int ((if even (8042142191733028::int) then 8042142191733028 else 8042142191733028 + 1)) * (2 ^ 3 / 2 ^ 52)"
  proof (rule round_double_eval)
    show "(4825285315039817 / 2 ^ 50 + 10 :: real) \<noteq> 0" by simp
    show "ulp (4825285315039817 / 2 ^ 50 + 10) = 2 ^ 3 / 2 ^ 52" by (rule ulp_pos_exp) simp_all
    show "round_half_even ((4825285315039817 / 2 ^ 50 + 10) / (2 ^ 3 / 2 ^ 52)) = (if even (8042142191733028::int) then 8042142191733028 else 8042142191733028 + 1)"
      by (rule round_half_even_tie) simp
  qed
  also have "of_int ((if even (8042142191733028::int) then 8042142191733028 else 8042142191733028 + 1)) * (2 ^ 3 / 2 ^ 52) = (2010535547933257 / 2 ^ 47 :: real)" by simp
  finally show ?thesis by (simp only: float_add_def)
qed

lemma price_10_039:
  "calculate_price_float 10 (3512807709348987 / 2 ^ 53) 0 = Inr (4614343880502557 / 2 ^ 48)"
proof -
  have nz: "(5494391545392005 / 2 ^ 53 :: real) \<noteq> 0" by simp
  have "calculate_price_float 10 (3512807709348987 / 2 ^ 53) 0
        = Inr (float_mul (round_double (10 / (5494391545392005 / 2 ^ 53))) 1)"
    by (simp only: calculate_price_float_def float_truediv_def sub_1_m39 nz if_False
        bind_result_def sum.case float_sub_one_zero)
  then show ?thesis
    by (simp only: div_10_d61 mul_q_1)
qed

lemma price_10_03:
  "calculate_price_float 10 (5404319552844595 / 2 ^ 54) 0 = Inr (8042142191733029 / 2 ^ 49)"
proof -
  have nz: "(3152519739159347 / 2 ^ 52 :: real) \<noteq> 0" by simp
  have "calculate_price_float 10 (5404319552844595 / 2 ^ 54) 0
        = Inr (float_mul (round_double (10 / (3152519739159347 / 2 ^ 52))) 1)"
    by (simp only: calculate_price_float_def float_truediv_def sub_1_m3 nz if_False
        bind_result_def sum.case float_sub_one_zero)
  then show ?thesis
    by (simp only: div_10_d7 mul_q7_1)
qed

lemma price_3_03:
  "calculate_price_float 3 (5404319552844595 / 2 ^ 54) 0 = Inr (4825285315039817 / 2 ^ 50)"
proof -
  have nz: "(3152519739159347 / 2 ^ 52 :: real) \<noteq> 0" by simp
  have "calculate_price_float 3 (5404319552844595 / 2 ^ 54) 0
        = Inr (float_mul (round_double (3 / (3152519739159347 / 2 ^ 52))) 1)"
    by (simp only: calculate_price_float_def float_truediv_def sub_1_m3 nz if_False
        bind_result_def sum.case float_sub_one_zero)
  then show ?thesis
    by (simp only: div_3_d7 mul_p3_1)
qed

lemma price_7_03:
  "calculate_price_float 7 (5404319552844595 / 2 ^ 54) 0 = Inr 10"
proof -
  have nz: "(3152519739159347 / 2 ^ 52 :: real) \<noteq> 0" by simp
  have "calculate_price_float 7 (5404319552844595 / 2 ^ 54) 0
        = Inr (float_mul (round_double (7 / (3152519739159347 / 2 ^ 52))) 1)"
    by (simp only: calculate_price_float_def float_truediv_def sub_1_m3 nz if_False
        bind_result_def sum.case float_sub_one_zero)
  then show ?thesis
    by (simp only: div_7_d7 mul_10_1)
qed

lemma scenario_10_03:
  "calculate_price_float 10 (round_double 0.3) 0 = Inr (round_double (10 / round_double 0.7))"
  "(14.2857 :: real) \<le> round_double (10 / round_double 0.7)"
  "round_double (10 / round_double 0.7) < (14.2858 :: real)"
proof -
  have v: "round_double (10 / round_double 0.7) = 8042142191733029 / 2 ^ 49"
    by (simp only: double_0_7 div_10_d7)
  show "calculate_price_float 10 (round_double 0.3) 0 = Inr (round_double (10 / round_double 0.7))"
    by (simp only: v double_0_3 price_10_03)
  show "(14.2857 :: real) \<le> round_double (10 / round_double 0.7)"
    by (simp only: v) simp
  show "round_double (10 / round_double 0.7) < (14.2858 :: real)"
    by (simp only: v) simp
qed

lemma tolerance_3_bound: "tolerance 3 < 4 / 2 ^ 53"
  by (simp add: tolerance_def unit_roundoff_def power3_eq_cube)

lemma additive_gap:
  fixes c1 c2 g a b1 b2 t :: real
  assumes "\<bar>a - 1\<bar> \<le> t" and "\<bar>b1 - 1\<bar> \<le> t" and "\<bar>b2 - 1\<bar> \<le> t"
  shows "\<bar>(c1 + c2) * g * a - (c1 * g * b1 + c2 * g * b2)\<bar> \<le> 2 * t * (\<bar>c1\<bar> + \<bar>c2\<bar>) * \<bar>g\<bar>"
proof -
  let ?r = "(c1 + c2) * (a - 1) - c1 * (b1 - 1) - c2 * (b2 - 1)"
  have t: "0 \<le> t" using assms(1) by linarith
  have "\<bar>(c1 + c2) * (a - 1)\<bar> = \<bar>c1 + c2\<bar> * \<bar>a - 1\<bar>" by (rule abs_mult)
  also have "\<dots> \<le> (\<bar>c1\<bar> + \<bar>c2\<bar>) * t"
    using assms(1) by (intro mult_mono) simp_all
  finally have p0: "\<bar>(c1 + c2) * (a - 1)\<bar> \<le> (\<bar>c1\<bar> + \<bar>c2\<bar>) * t" .
  have "\<bar>c1 * (b1 - 1)\<bar> = \<bar>c1\<bar> * \<bar>b1 - 1\<bar>" by (rule abs_mult)
  also have "\<dots> \<le> \<bar>c1\<bar> * t"
    using assms(2) by (intro mult_left_mono) simp_all
  finally have p1: "\<bar>c1 * (b1 - 1)\<bar> \<le> \<bar>c1\<bar> * t" .
  have "\<bar>c2 * (b2 - 1)\<bar> = \<bar>c2\<bar> * \<bar>b2 - 1\<bar>" by (rule abs_mult)
  also have "\<dots> \<le> \<bar>c2\<bar> * t"
    using assms(3) by (intro mult_left_mono) simp_all
  finally have p2: "\<bar>c2 * (b2 - 1)\<bar> \<le> \<bar>c2\<bar> * t" .
  have "\<bar>?r\<bar> \<le> \<bar>(c1 + c2) * (a - 1)\<bar> + \<bar>c1 * (b1 - 1)\<bar> + \<bar>c2 * (b2 - 1)\<bar>"
    by linarith
  also have "\<dots> \<le> (\<bar>c1\<bar> + \<bar>c2\<bar>) * t + \<bar>c1\<bar> * t + \<bar>c2\<bar> * t"
    using p0 p1 p2 by linarith
  also have "\<dots> = 2 * t * (\<bar>c1\<bar> + \<bar>c2\<bar>)"
    by (simp add: algebra_simps)
  finally have r: "\<bar>?r\<bar> \<le> 2 * t * (\<bar>c1\<bar> + \<bar>c2\<bar>)" .
  have "(c1 + c2) * g * a - (c1 * g * b1 + c2 * g * b2) = ?r * g"
    by (simp add: algebra_simps)
  then have "\<bar>(c1 + c2) * g * a - (c1 * g * b1 + c2 * g * b2)\<bar> = \<bar>?r\<bar> * \<bar>g\<bar>"
    by (simp only: abs_mult)
  also have "\<dots> \<le> 2 * t * (\<bar>c1\<bar> + \<bar>c2\<bar>) * \<bar>g\<bar>"
    using r by (intro mult_right_mono) simp_all
  finally show ?thesis .
qed

subsection \<open>Round trip and additivity\<close>

lemma round_trip_within_tolerance:
  "(m \<noteq> 1 \<longrightarrow>
      calculate_price_float c m vd
        = Inr (float_mul (round_double (c / float_sub 1 m)) (float_sub 1 vd)))
   \<and> (m < 1 \<longrightarrow> (\<exists>t. round_trip c m = Inr t \<and> \<bar>t - c\<bar> \<le> tolerance 3 * \<bar>c\<bar>))"
proof -
  have formula: "m \<noteq> 1 \<longrightarrow>
      calculate_price_float c m vd
        = Inr (float_mul (round_double (c / float_sub 1 m)) (float_sub 1 vd))"
    by (simp add: calculate_price_float_value)
  have trip: "m < 1 \<longrightarrow> (\<exists>t. round_trip c m = Inr t \<and> \<bar>t - c\<bar> \<le> tolerance 3 * \<bar>c\<bar>)"
  proof
    assume "m < 1"
    then have m: "m \<noteq> 1" by simp
    let ?d = "float_sub 1 m"
    have d: "?d \<noteq> 0" using m by (rule float_sub_nonzero)
    obtain a where a: "\<bar>a - 1\<bar> \<le> tolerance 2"
      and p: "calculate_price_float c m 0 = Inr (c * (float_sub 1 0 / ?d) * a)"
      using m by (rule calculate_price_float_factor)
    let ?p = "c * (float_sub 1 0 / ?d) * a"
    obtain e where e: "\<bar>e\<bar> \<le> unit_roundoff"
      and r: "round_double (?p * ?d) = ?p * ?d * (1 + e)"
      by (rule round_double_factor)
    have "\<bar>a * (1 + e) - 1\<bar> \<le> tolerance (Suc 2)"
      using a e by (rule tolerance_step)
    then have near: "\<bar>a * (1 + e) - 1\<bar> \<le> tolerance 3" by simp
    have "?p * ?d * (1 + e) = c * (a * (1 + e))"
      using d by (simp add: float_sub_one_zero)
    with r have val: "round_double (?p * ?d) = c * (a * (1 + e))" by simp
    have "\<bar>c * (a * (1 + e)) - c\<bar> = \<bar>c\<bar> * \<bar>a * (1 + e) - 1\<bar>"
      by (simp add: abs_mult [symmetric] algebra_simps)
    also have "\<dots> \<le> \<bar>c\<bar> * tolerance 3"
      using near by (intro mult_left_mono) simp_all
    finally have "\<bar>c * (a * (1 + e)) - c\<bar> \<le> tolerance 3 * \<bar>c\<bar>"
      by (simp only: mult.commute)
    then have "\<bar>round_double (?p * ?d) - c\<bar> \<le> tolerance 3 * \<bar>c\<bar>"
      by (simp only: val)
    moreover have "round_trip c m = Inr (round_double (?p * ?d))"
      by (simp add: round_trip_def p bind_result_def float_mul_def)
    ultimately show "\<exists>t. round_trip c m = Inr t \<and> \<bar>t - c\<bar> \<le> tolerance 3 * \<bar>c\<bar>"
      by blast
  qed
  from formula trip show ?thesis by (rule conjI)
qed

text \<open>
  C1 (as the code has it). Whenever the margin is not 1 the calculator returns the value of
  \<open>base_cost / (1 - margin) * (1 - volume_discount)\<close> on floats, each operation rounded. For
  a margin below 1 and no discount, the price times \<open>1 - margin\<close> is \<open>base_cost\<close> within
  floating-point tolerance: the relative error is at most that of three roundings, which is
  below \<open>4 / 2 ^ 53\<close>. The price of \<open>(10.0, 0.3, 0.0)\<close> is the float \<open>10.0 / 0.7\<close>, which
  lies between 14.2857 and 14.2858.
\<close>

theorem C1_price_formula_rounded:
  "(m \<noteq> 1 \<longrightarrow>
      calculate_price_float c m vd
        = Inr (float_mul (round_double (c / float_sub 1 m)) (float_sub 1 vd)))
   \<and> (m < 1 \<longrightarrow> (\<exists>t. round_trip c m = Inr t \<and> \<bar>t - c\<bar> \<le> tolerance 3 * \<bar>c\<bar>))
   \<and> tolerance 3 < 4 / 2 ^ 53
   \<and> calculate_price_float 10 (round_double 0.3) 0 = Inr (round_double (10 / round_double 0.7))
   \<and> (14.2857 :: real) \<le> round_double (10 / round_double 0.7)
   \<and> round_double (10 / round_double 0.7) < (14.2858 :: real)"
proof -
  note general = round_trip_within_tolerance [of m c vd]
  from general have formula: "m \<noteq> 1 \<longrightarrow>
      calculate_price_float c m vd
        = Inr (float_mul (round_double (c / float_sub 1 m)) (float_sub 1 vd))" ..
  from general have trip:
    "m < 1 \<longrightarrow> (\<exists>t. round_trip c m = Inr t \<and> \<bar>t - c\<bar> \<le> tolerance 3 * \<bar>c\<bar>)" ..
  show ?thesis
    by (intro conjI) (rule formula trip tolerance_3_bound scenario_10_03)+
qed

theorem C1_price_formula_rounded_witness:
  "\<exists>t. round_trip 10 (round_double 0.39) = Inr t \<and> \<bar>t - 10\<bar> \<le> tolerance 3 * 10"
proof -
  have "round_double 0.39 < 1" by (simp only: double_0_39) simp
  then show ?thesis
    using C1_price_formula_rounded [of "round_double 0.39" 10 0] by simp
qed

text \<open>
  C1, the claim as written, fails in its round trip: for a cost of 10 and the margin
  \<open>0.39\<close> the price times \<open>1 - margin\<close> is \<open>10 - 1 / 2 ^ 49\<close> (Python prints
  9.999999999999998), not 10.
\<close>

theorem C1_round_trip_counterexample:
  "round_trip 10 (round_double 0.39) = Inr (10 - 1 / 2 ^ 49)"
proof -
  have "round_trip 10 (round_double 0.39) = Inr (5629499534213119 / 2 ^ 49)"
    by (simp only: double_0_39 round_trip_def price_10_039 bind_result_def sum.case
        sub_1_m39 mul_q_d61)
  also have "(5629499534213119 / 2 ^ 49 :: real) = 10 - 1 / 2 ^ 49" by simp
  finally show ?thesis .
qed

text \<open>
  C10 (as the code has it). The calculator is additive in the base cost up to rounding: for a
  margin other than 1, the price of the float sum \<open>c1 + c2\<close> and the float sum of the prices
  of \<open>c1\<close> and \<open>c2\<close> differ by at most
  \<open>2 * tolerance 3 * (\<bar>c1\<bar> + \<bar>c2\<bar>) * \<bar>(1 - vd) / (1 - m)\<bar>\<close>, the quotient as the floats
  give it.
\<close>

theorem C10_price_additive_rounded:
  assumes "m \<noteq> 1"
  shows "\<exists>p s. calculate_price_float (float_add c1 c2) m vd = Inr p
     \<and> price_sum c1 c2 m vd = Inr s
     \<and> \<bar>p - s\<bar> \<le> 2 * tolerance 3 * (\<bar>c1\<bar> + \<bar>c2\<bar>) * \<bar>float_sub 1 vd / float_sub 1 m\<bar>"
proof -
  let ?g = "float_sub 1 vd / float_sub 1 m"
  obtain e0 where e0: "\<bar>e0\<bar> \<le> unit_roundoff"
    and sum: "round_double (c1 + c2) = (c1 + c2) * (1 + e0)"
    by (rule round_double_factor)
  obtain a0 where a0: "\<bar>a0 - 1\<bar> \<le> tolerance 2"
    and p: "calculate_price_float (float_add c1 c2) m vd = Inr (float_add c1 c2 * ?g * a0)"
    using assms by (rule calculate_price_float_factor)
  obtain a1 where a1: "\<bar>a1 - 1\<bar> \<le> tolerance 2"
    and p1: "calculate_price_float c1 m vd = Inr (c1 * ?g * a1)"
    using assms by (rule calculate_price_float_factor)
  obtain a2 where a2: "\<bar>a2 - 1\<bar> \<le> tolerance 2"
    and p2: "calculate_price_float c2 m vd = Inr (c2 * ?g * a2)"
    using assms by (rule calculate_price_float_factor)
  obtain e3 where e3: "\<bar>e3\<bar> \<le> unit_roundoff"
    and add: "round_double (c1 * ?g * a1 + c2 * ?g * a2) = (c1 * ?g * a1 + c2 * ?g * a2) * (1 + e3)"
    by (rule round_double_factor)
  have "\<bar>a0 * (1 + e0) - 1\<bar> \<le> tolerance (Suc 2)" using a0 e0 by (rule tolerance_step)
  then have n0: "\<bar>a0 * (1 + e0) - 1\<bar> \<le> tolerance 3" by simp
  have "\<bar>a1 * (1 + e3) - 1\<bar> \<le> tolerance (Suc 2)" using a1 e3 by (rule tolerance_step)
  then have n1: "\<bar>a1 * (1 + e3) - 1\<bar> \<le> tolerance 3" by simp
  have "\<bar>a2 * (1 + e3) - 1\<bar> \<le> tolerance (Suc 2)" using a2 e3 by (rule tolerance_step)
  then have n2: "\<bar>a2 * (1 + e3) - 1\<bar> \<le> tolerance 3" by simp
  have whole: "float_add c1 c2 * ?g * a0 = (c1 + c2) * ?g * (a0 * (1 + e0))"
    by (simp only: float_add_def sum) simp
  have parts: "price_sum c1 c2 m vd
        = Inr (c1 * ?g * (a1 * (1 + e3)) + c2 * ?g * (a2 * (1 + e3)))"
  proof -
    have "price_sum c1 c2 m vd = Inr (round_double (c1 * ?g * a1 + c2 * ?g * a2))"
      by (simp only: price_sum_def p1 p2 bind_result_def sum.case float_add_def)
    also have "round_double (c1 * ?g * a1 + c2 * ?g * a2)
        = c1 * ?g * (a1 * (1 + e3)) + c2 * ?g * (a2 * (1 + e3))"
      by (simp only: add) (simp add: algebra_simps)
    finally show ?thesis .
  qed
  have gap: "\<bar>(c1 + c2) * ?g * (a0 * (1 + e0))
        - (c1 * ?g * (a1 * (1 + e3)) + c2 * ?g * (a2 * (1 + e3)))\<bar>
      \<le> 2 * tolerance 3 * (\<bar>c1\<bar> + \<bar>c2\<bar>) * \<bar>?g\<bar>"
    using n0 n1 n2 by (rule additive_gap)
  from p whole have p': "calculate_price_float (float_add c1 c2) m vd
        = Inr ((c1 + c2) * ?g * (a0 * (1 + e0)))"
    by (simp only:)
  from p' parts gap show ?thesis by blast
qed

theorem C10_price_additive_rounded_witness:
  "\<exists>p s. calculate_price_float (float_add 3 7) (round_double 0.3) 0 = Inr p
     \<and> price_sum 3 7 (round_double 0.3) 0 = Inr s
     \<and> \<bar>p - s\<bar> \<le> 2 * tolerance 3 * (\<bar>3\<bar> + \<bar>7\<bar>) * \<bar>float_sub 1 0 / float_sub 1 (round_double 0.3)\<bar>"
proof -
  have "round_double 0.3 \<noteq> 1" by (simp only: double_0_3) simp
  then show ?thesis
    by (rule C10_price_additive_rounded)
qed

text \<open>
  C10, the claim as written, fails: at the margin \<open>0.3\<close> and no discount the price of
  \<open>3 + 7\<close> is \<open>8042142191733029 / 2 ^ 49\<close> (14.285714285714286) and the sum of the prices
  of 3 and of 7 is \<open>8042142191733028 / 2 ^ 49\<close> (14.285714285714285).
\<close>

theorem C10_price_additive_counterexample:
  "calculate_price_float (float_add 3 7) (round_double 0.3) 0 = Inr (8042142191733029 / 2 ^ 49)
   \<and> price_sum 3 7 (round_double 0.3) 0 = Inr (8042142191733028 / 2 ^ 49)"
proof -
  have whole: "calculate_price_float (float_add 3 7) (round_double 0.3) 0
        = Inr (8042142191733029 / 2 ^ 49)"
    by (simp only: add_3_7 double_0_3 price_10_03)
  have "price_sum 3 7 (round_double 0.3) 0 = Inr (2010535547933257 / 2 ^ 47)"
    by (simp only: price_sum_def double_0_3 price_3_03 price_7_03 bind_result_def sum.case
        add_p3_10)
  also have "(2010535547933257 / 2 ^ 47 :: real) = 8042142191733028 / 2 ^ 49" by simp
  finally have parts: "price_sum 3 7 (round_double 0.3) 0 = Inr (8042142191733028 / 2 ^ 49)" .
  from whole parts show ?thesis by (rule conjI)
qed

section \<open>Properties of the pricing calculator in exact arithmetic\<close>

lemma calculate_price_value:
  "margin \<noteq> 1 \<Longrightarrow>
     calculate_price base_cost margin volume_discount =
       Inr (base_cost / (1 - margin) * (1 - volume_discount))"
  by (simp add: calculate_price_def py_truediv_def bind_result_def)







text \<open>
  C7 (as the code has it). For a positive cost, a margin in \<open>[0, 1)\<close> and a discount in
  \<open>[0, 1]\<close> the calculator returns a number that is never negative, and that is 0 exactly
  when the discount is 1: the price is strictly positive for every discount below 1.
\<close>

theorem C7_price_nonnegative:
  assumes "0 < c" and "0 \<le> m" and "m < 1" and "0 \<le> vd" and "vd \<le> 1"
  shows "\<exists>p. calculate_price c m vd = Inr p \<and> 0 \<le> p \<and> (p = 0 \<longleftrightarrow> vd = 1)
           \<and> (vd < 1 \<longrightarrow> 0 < p)"
proof -
  from assms have q: "0 < c / (1 - m)" by simp
  from assms have k: "0 \<le> 1 - vd" by simp
  have nonneg: "0 \<le> c / (1 - m) * (1 - vd)"
    using less_imp_le [OF q] k by (rule mult_nonneg_nonneg)
  have zero: "c / (1 - m) * (1 - vd) = 0 \<longleftrightarrow> vd = 1"
    using q by auto
  have pos: "vd < 1 \<longrightarrow> 0 < c / (1 - m) * (1 - vd)"
  proof
    assume "vd < 1"
    then have "0 < 1 - vd" by simp
    with q show "0 < c / (1 - m) * (1 - vd)" by (rule mult_pos_pos)
  qed
  from assms have "m \<noteq> 1" by simp
  then show ?thesis
    using nonneg zero pos by (simp add: calculate_price_value)
qed

theorem C7_price_nonnegative_witness:
  "\<exists>p. calculate_price 10 0.5 0.1 = Inr p \<and> 0 < p"
  using C7_price_nonnegative [of 10 "0.5" "0.1"] by auto

text \<open>
  C7, the claim as written, fails at a discount of 1, which the claim's range \<open>[0, 1]\<close>
  contains: the price is 0, not strictly positive.
\<close>

theorem C7_full_discount_counterexample:
  "calculate_price 10 0.5 1 = Inr 0"
  by (simp add: calculate_price_def py_truediv_def bind_result_def)

section \<open>Properties of the series generator\<close>

subsection \<open>The output in closed form\<close>

lemma date_range_empty: "end_date < start \<Longrightarrow> date_range start end_date = []"
  by (subst date_range.simps) simp

lemma date_range_closed:
  "date_range (e - timedelta (int n)) e = map (\<lambda>k. e - timedelta (int n - int k)) [0..<Suc n]"
proof (induction n)
  case 0
  have "date_range e e = [e]"
    by (subst date_range.simps) (simp add: date_range_empty timedelta_def)
  then show ?case by (simp add: timedelta_def)
next
  case (Suc n)
  have le: "e - timedelta (int (Suc n)) \<le> e" by (simp add: timedelta_def)
  have step: "e - timedelta (int (Suc n)) + timedelta 1 = e - timedelta (int n)"
    by (simp add: timedelta_def algebra_simps)
  have "date_range (e - timedelta (int (Suc n))) e
        = (e - timedelta (int (Suc n))) # date_range (e - timedelta (int (Suc n)) + timedelta 1) e"
    using le by (subst date_range.simps) (simp only: if_True)
  also have "\<dots> = (e - timedelta (int (Suc n))) # date_range (e - timedelta (int n)) e"
    by (simp only: step)
  also have "\<dots> = (e - timedelta (int (Suc n))) # map (\<lambda>k. e - timedelta (int n - int k)) [0..<Suc n]"
    by (simp only: Suc.IH)
  also have "\<dots> = map (\<lambda>k. e - timedelta (int (Suc n) - int k)) [0..<Suc (Suc n)]"
  proof -
    have "[0..<Suc (Suc n)] = 0 # map Suc [0..<Suc n]"
      by (simp only: upt_conv_Cons [of 0 "Suc (Suc n)"] map_Suc_upt)
    then show ?thesis by (simp add: comp_def del: upt_Suc)
  qed
  finally show ?case .
qed

lemma cumsum_from_length [simp]: "length (cumsum_from acc xs) = length xs"
  by (induction xs arbitrary: acc) simp_all

lemma cumsum_from_nth:
  "i < length xs \<Longrightarrow> cumsum_from acc xs ! i = acc + (\<Sum>j\<le>i. xs ! j)"
proof (induction xs arbitrary: acc i)
  case Nil
  then show ?case by simp
next
  case (Cons x xs)
  show ?case
  proof (cases i)
    case 0
    then show ?thesis by simp
  next
    case (Suc k)
    with Cons.prems have k: "k < length xs" by simp
    have "(\<Sum>j\<le>Suc k. (x # xs) ! j) = x + (\<Sum>j\<le>k. xs ! j)"
      by (simp add: sum.atMost_Suc_shift del: sum.atMost_Suc)
    with Cons.IH [OF k] Suc show ?thesis by simp
  qed
qed

lemma date_range_days:
  assumes "0 \<le> days"
  shows "date_range (now - timedelta (days - 1)) now
         = map (\<lambda>k. now - timedelta (days - 1 - int k)) [0..<nat days]"
proof (cases "days = 0")
  case True
  then show ?thesis by (simp add: date_range_empty timedelta_def)
next
  case False
  with assms obtain n where n: "days = int (Suc n)"
    by (metis Suc_pred' nat_0_le zero_less_nat_eq less_le int_nat_eq)
  then have d1: "days - 1 = int n" and d2: "nat days = Suc n" by simp_all
  show ?thesis
    by (simp only: d1 d2 date_range_closed)
qed

lemma add_arrays_map:
  "add_arrays (map f xs) (map g xs) = map (\<lambda>x. f x + g x) xs"
  by (induction xs) (simp_all add: add_arrays_def)

lemma seasonal_map:
  "seasonal days amplitude = map (\<lambda>k. sin (real k * 2 * pi / 365) * amplitude) [0..<nat days]"
  by (simp add: seasonal_def arange_def comp_def)


lemma add_seasonal:
  "add_arrays (map f [0..<nat days]) (seasonal days amplitude)
   = map (\<lambda>k. f k + sin (real k * 2 * pi / 365) * amplitude) [0..<nat days]"
  by (simp only: seasonal_map add_arrays_map)

lemma length_add_arrays: "length (add_arrays xs ys) = min (length xs) (length ys)"
  by (simp add: add_arrays_def)

lemma length_cumsum: "length (cumsum xs) = length xs"
  by (simp add: cumsum_def)

lemma pd_DataFrame_expected:
  "pd_DataFrame (expected_frame days now r) = Inr (expected_frame days now r)"
  by (simp add: pd_DataFrame_def expected_frame_def length_add_arrays length_cumsum)

lemma generate_fake_data_returns:
  assumes "0 \<le> days"
  shows "generate_fake_data days now r = Inr (expected_frame days now r)"
proof -
  from assms have u: "random_uniform lo hi days src = Inr (map (uniform_draw lo hi src) [0..<nat days])"
    for lo hi src by (simp add: random_uniform_def)
  from assms have n: "random_normal lo hi days src = Inr (map (normal_draw lo hi src) [0..<nat days])"
    for lo hi src by (simp add: random_normal_def)
  from assms have i: "random_randint lo hi days src = Inr (map (randint_draw lo hi src) [0..<nat days])"
    for lo hi src by (simp add: random_randint_def)
  have vol: "add_arrays (map real_of_int (map (randint_draw 50 500 (volume_src r)) [0..<nat days]))
               (seasonal days 100)
             = map (\<lambda>k. real_of_int (randint_draw 50 500 (volume_src r) k)
                         + sin (real k * 2 * pi / 365) * 100) [0..<nat days]"
    by (simp only: map_map add_seasonal comp_def)
  have "generate_fake_data days now r = pd_DataFrame (expected_frame days now r)"
    by (simp only: generate_fake_data_def Let_def u n i bind_result_def sum.case
        date_range_days [OF assms] add_seasonal vol expected_frame_def)
  then show ?thesis
    by (simp only: pd_DataFrame_expected)
qed

lemma uniform_draw_range:
  assumes "0 \<le> src k" and "src k < 1" and "low < high"
  shows "low \<le> uniform_draw low high src k \<and> uniform_draw low high src k < high"
proof -
  from assms have "0 \<le> (high - low) * src k" by simp
  moreover from assms have "(high - low) * src k < (high - low) * 1"
    by (intro mult_strict_left_mono) simp_all
  ultimately show ?thesis by (simp add: uniform_draw_def)
qed

lemma randint_draw_range:
  assumes "0 \<le> src k" and "src k < 1" and "low < high"
  shows "low \<le> randint_draw low high src k \<and> randint_draw low high src k < high"
proof -
  from assms have "0 \<le> real_of_int (high - low) * src k" by simp
  then have lo: "0 \<le> \<lfloor>real_of_int (high - low) * src k\<rfloor>" by simp
  from assms have "real_of_int (high - low) * src k < real_of_int (high - low) * 1"
    by (intro mult_strict_left_mono) simp_all
  then have "\<lfloor>real_of_int (high - low) * src k\<rfloor> < high - low"
    by (simp add: floor_less_iff)
  with lo show ?thesis by (simp add: randint_draw_def)
qed

lemma seasonal_term_bounds:
  fixes x amplitude :: real
  assumes "0 \<le> amplitude"
  shows "- amplitude \<le> sin x * amplitude \<and> sin x * amplitude \<le> amplitude"
proof -
  have "(- 1) * amplitude \<le> sin x * amplitude"
    by (rule mult_right_mono) (simp_all add: assms)
  moreover have "sin x * amplitude \<le> 1 * amplitude"
    by (rule mult_right_mono) (simp_all add: assms)
  ultimately show ?thesis by simp
qed

lemma add_arrays_nth:
  "i < length xs \<Longrightarrow> i < length ys \<Longrightarrow> add_arrays xs ys ! i = xs ! i + ys ! i"
  by (simp add: add_arrays_def)

lemma cumsum_map_nth:
  assumes "i < n"
  shows "cumsum (map g [0..<n]) ! i = (\<Sum>j\<le>i. g j)"
proof -
  have "cumsum (map g [0..<n]) ! i = 0 + (\<Sum>j\<le>i. map g [0..<n] ! j)"
    unfolding cumsum_def using assms by (intro cumsum_from_nth) simp
  also have "(\<Sum>j\<le>i. map g [0..<n] ! j) = (\<Sum>j\<le>i. g j)"
    using assms by (intro sum.cong) simp_all
  finally show ?thesis by simp
qed

lemma labor_rate_nth:
  assumes "i < n"
  shows "add_arrays (map f [0..<n]) (cumsum (map g [0..<n])) ! i = f i + (\<Sum>j\<le>i. g j)"
  using assms by (simp add: add_arrays_nth length_cumsum cumsum_map_nth)

lemma rng_ok_unit:
  assumes "rng_ok n r" and "k < n"
  shows "0 \<le> steel_src r k \<and> steel_src r k < 1"
    and "0 \<le> aluminum_src r k \<and> aluminum_src r k < 1"
    and "0 \<le> fiberglass_src r k \<and> fiberglass_src r k < 1"
    and "0 \<le> labor_src r k \<and> labor_src r k < 1"
    and "0 \<le> electricity_src r k \<and> electricity_src r k < 1"
    and "0 \<le> volume_src r k \<and> volume_src r k < 1"
  using assms by (simp_all add: rng_ok_def unit_samples_def)

lemma rng_ok_constant: "0 \<le> u \<Longrightarrow> u < 1 \<Longrightarrow> rng_ok n (constant_rng u z)"
  by (simp add: rng_ok_def unit_samples_def constant_rng_def)


lemma sin_day_273:
  "sin (2 * pi * 273 / 365) < - (1 / 2 :: real)"
proof -
  have split: "2 * pi * 273 / 365 = pi + 181 * pi / 365"
    by simp
  have "sin (pi / 6) < sin (181 * pi / 365)"
  proof (rule sin_monotone_2pi)
    show "- (pi / 2) \<le> pi / 6" using pi_gt_zero by simp
    show "pi / 6 < 181 * pi / 365" using pi_gt_zero by simp
    show "181 * pi / 365 \<le> pi / 2" using pi_gt_zero by simp
  qed
  then have "1 / 2 < sin (181 * pi / 365)"
    by (simp only: sin_30)
  then have "sin (pi + 181 * pi / 365) < - (1 / 2)"
    by (simp only: sin_periodic_pi2)
  then show ?thesis
    by (simp only: split)
qed

lemma labor_rate_expected:
  assumes "i < nat days"
  shows "Labor_Rate (expected_frame days now r) ! i
         = uniform_draw 20 30 (labor_src r) i + (\<Sum>j\<le>i. normal_draw 0 0.01 (normal_src r) j)"
  using assms by (simp add: expected_frame_def labor_rate_nth)

lemma length_labor_rate_expected:
  "length (Labor_Rate (expected_frame days now r)) = nat days"
  by (simp add: expected_frame_def length_add_arrays length_cumsum)

lemma order_volume_expected:
  assumes "i < nat days"
  shows "Order_Volume (expected_frame days now r) ! i
         = real_of_int (randint_draw 50 500 (volume_src r) i) + sin (real i * 2 * pi / 365) * 100"
  using assms by (simp add: expected_frame_def)

lemma length_order_volume_expected:
  "length (Order_Volume (expected_frame days now r)) = nat days"
  by (simp add: expected_frame_def)

lemma seasonal_cost_positive:
  fixes u x amplitude low :: real
  assumes "low \<le> u" and "0 \<le> amplitude" and "amplitude < low"
  shows "0 < u + sin x * amplitude"
proof -
  from seasonal_term_bounds [OF assms(2), of x] have "- amplitude \<le> sin x * amplitude" ..
  with assms(1,3) show ?thesis by linarith
qed

subsection \<open>Errors and dates\<close>






subsection \<open>The records\<close>



text \<open>
  C8 (as the code has it). For every \<open>days > 0\<close>, every random source and every row: the
  steel, aluminum, fiberglass and electricity costs are strictly positive. The labor rate is
  strictly positive whenever the running sum of the normal increments up to that day is above
  \<open>- 20\<close>; the increments have no lower bound, so nothing holds the labor rate above 0.
\<close>

theorem C8_costs_positive:
  assumes "0 < days" and "rng_ok (nat days) r" and "i < nat days"
  shows "\<exists>df. generate_fake_data days now r = Inr df
     \<and> len_frame df = nat days
     \<and> 0 < Steel_Cost df ! i \<and> 0 < Aluminum_Cost df ! i
     \<and> 0 < Fiberglass_Cost df ! i \<and> 0 < Electricity_Cost df ! i
     \<and> (- 20 < (\<Sum>j\<le>i. normal_draw 0 0.01 (normal_src r) j) \<longrightarrow> 0 < Labor_Rate df ! i)"
proof -
  let ?df = "expected_frame days now r"
  let ?x = "real i * 2 * pi / 365"
  note unit = rng_ok_unit [OF assms(2,3)]
  from assms have ret: "generate_fake_data days now r = Inr ?df"
    by (simp add: generate_fake_data_returns)
  have len: "len_frame ?df = nat days"
    by (simp add: len_frame_def expected_frame_def)
  have "0.5 \<le> uniform_draw 0.5 1.0 (steel_src r) i"
    using uniform_draw_range [of "steel_src r" i "0.5" "1.0"] unit(1) by simp
  then have "0 < uniform_draw 0.5 1.0 (steel_src r) i + sin ?x * 0.1"
    by (rule seasonal_cost_positive) simp_all
  then have steel: "0 < Steel_Cost ?df ! i"
    using assms(3) by (simp add: expected_frame_def)
  have "1.0 \<le> uniform_draw 1.0 1.5 (aluminum_src r) i"
    using uniform_draw_range [of "aluminum_src r" i "1.0" "1.5"] unit(2) by simp
  then have "0 < uniform_draw 1.0 1.5 (aluminum_src r) i + sin ?x * 0.15"
    by (rule seasonal_cost_positive) simp_all
  then have aluminum: "0 < Aluminum_Cost ?df ! i"
    using assms(3) by (simp add: expected_frame_def)
  have "0.3 \<le> uniform_draw 0.3 0.6 (fiberglass_src r) i"
    using uniform_draw_range [of "fiberglass_src r" i "0.3" "0.6"] unit(3) by simp
  then have "0 < uniform_draw 0.3 0.6 (fiberglass_src r) i + sin ?x * 0.05"
    by (rule seasonal_cost_positive) simp_all
  then have fiberglass: "0 < Fiberglass_Cost ?df ! i"
    using assms(3) by (simp add: expected_frame_def)
  have "0.1 \<le> uniform_draw 0.1 0.2 (electricity_src r) i"
    using uniform_draw_range [of "electricity_src r" i "0.1" "0.2"] unit(5) by simp
  then have "0 < uniform_draw 0.1 0.2 (electricity_src r) i + sin ?x * 0.02"
    by (rule seasonal_cost_positive) simp_all
  then have electricity: "0 < Electricity_Cost ?df ! i"
    using assms(3) by (simp add: expected_frame_def)
  have base: "20 \<le> uniform_draw 20 30 (labor_src r) i"
    using uniform_draw_range [of "labor_src r" i 20 30] unit(4) by simp
  have labor: "- 20 < (\<Sum>j\<le>i. normal_draw 0 0.01 (normal_src r) j) \<longrightarrow> 0 < Labor_Rate ?df ! i"
    using base by (simp add: labor_rate_expected [OF assms(3)])
  show ?thesis
    by (intro exI [of _ ?df] conjI) (rule ret len steel aluminum fiberglass electricity labor)+
qed

theorem C8_costs_positive_witness:
  "\<exists>df. generate_fake_data 1 0 (constant_rng 0 0) = Inr df
     \<and> 0 < Steel_Cost df ! 0 \<and> 0 < Aluminum_Cost df ! 0
     \<and> 0 < Fiberglass_Cost df ! 0 \<and> 0 < Electricity_Cost df ! 0 \<and> 0 < Labor_Rate df ! 0"
proof -
  have ok: "rng_ok (nat 1) (constant_rng 0 0)"
    by (simp add: rng_ok_constant)
  show ?thesis
    using C8_costs_positive [OF _ ok, of 0 0]
    by (auto simp: normal_draw_def constant_rng_def)
qed

text \<open>
  C8, the claim as written, fails for the labor rate: with the default 365 days, a base draw
  of 20 every day and an increment of \<open>- 0.06\<close> every day, the labor rate of the last day is
  \<open>20 - 365 * 0.06 = - 1.9\<close>.
\<close>

theorem C8_labor_rate_counterexample:
  "column_value Labor_Rate 364 (generate_fake_data 365 0 (constant_rng 0 (- 6))) = Some (- 1.9)"
proof -
  let ?r = "constant_rng 0 (- 6)"
  have ret: "generate_fake_data 365 0 ?r = Inr (expected_frame 365 0 ?r)"
    by (simp add: generate_fake_data_returns)
  have len: "364 < length (Labor_Rate (expected_frame 365 0 ?r))"
    by (simp add: length_labor_rate_expected)
  have "Labor_Rate (expected_frame 365 0 ?r) ! 364
        = uniform_draw 20 30 (labor_src ?r) 364 + (\<Sum>j\<le>364. normal_draw 0 0.01 (normal_src ?r) j)"
    by (rule labor_rate_expected) simp
  also have "\<dots> = - 1.9"
    by (simp add: uniform_draw_def normal_draw_def constant_rng_def)
  finally have val: "Labor_Rate (expected_frame 365 0 ?r) ! 364 = - 1.9" .
  show ?thesis
    by (simp only: ret column_value_def sum.case len if_True val)
qed

text \<open>
  C9 (as the code has it). For every \<open>days > 0\<close>, every random source and every row: the
  order volume is at least \<open>- 50\<close>. It is non-negative whenever the integer draw of the day
  is at least 100, and at least 50 on the rows \<open>0..182\<close>, where the seasonal term is not
  negative.
\<close>

theorem C9_order_volume_bounds:
  assumes "0 < days" and "rng_ok (nat days) r" and "i < nat days"
  shows "\<exists>df. generate_fake_data days now r = Inr df
     \<and> len_frame df = nat days
     \<and> - 50 \<le> Order_Volume df ! i
     \<and> (100 \<le> randint_draw 50 500 (volume_src r) i \<longrightarrow> 0 \<le> Order_Volume df ! i)
     \<and> (i \<le> 182 \<longrightarrow> 50 \<le> Order_Volume df ! i)"
proof -
  let ?df = "expected_frame days now r"
  let ?x = "real i * 2 * pi / 365"
  let ?n = "real_of_int (randint_draw 50 500 (volume_src r) i)"
  note unit = rng_ok_unit [OF assms(2,3)]
  from assms have ret: "generate_fake_data days now r = Inr ?df"
    by (simp add: generate_fake_data_returns)
  have len: "len_frame ?df = nat days"
    by (simp add: len_frame_def expected_frame_def)
  have val: "Order_Volume ?df ! i = ?n + sin ?x * 100"
    by (rule order_volume_expected [OF assms(3)])
  have "50 \<le> randint_draw 50 500 (volume_src r) i"
    using randint_draw_range [of "volume_src r" i 50 500] unit(6) by simp
  then have draw: "50 \<le> ?n" by simp
  have season: "- 100 \<le> sin ?x * 100"
    using seasonal_term_bounds [of 100 ?x] by simp
  from draw season have floor_bound: "- 50 \<le> Order_Volume ?df ! i"
    by (simp only: val)
  have high_draw: "100 \<le> randint_draw 50 500 (volume_src r) i \<longrightarrow> 0 \<le> Order_Volume ?df ! i"
  proof
    assume "100 \<le> randint_draw 50 500 (volume_src r) i"
    then have "100 \<le> ?n" by simp
    with season show "0 \<le> Order_Volume ?df ! i"
      by (simp only: val)
  qed
  have first_half: "i \<le> 182 \<longrightarrow> 50 \<le> Order_Volume ?df ! i"
  proof
    assume "i \<le> 182"
    then have "real i * 2 \<le> 365" by simp
    then have "?x \<le> pi"
      using pi_gt_zero by (simp add: field_simps)
    moreover have "0 \<le> ?x" using pi_gt_zero by simp
    ultimately have "0 \<le> sin ?x" by (intro sin_ge_zero)
    then have "0 \<le> sin ?x * 100" by simp
    with draw show "50 \<le> Order_Volume ?df ! i"
      by (simp only: val)
  qed
  show ?thesis
    by (intro exI [of _ ?df] conjI) (rule ret len floor_bound high_draw first_half)+
qed

theorem C9_order_volume_bounds_witness:
  "\<exists>df. generate_fake_data 1 0 (constant_rng 0.5 0) = Inr df
     \<and> 50 \<le> Order_Volume df ! 0"
proof -
  have ok: "rng_ok (nat 1) (constant_rng 0.5 0)"
    by (simp add: rng_ok_constant)
  show ?thesis
    using C9_order_volume_bounds [OF _ ok, of 0 0]
    by auto
qed

text \<open>
  C9, the claim as written, fails: with the default 365 days and an integer draw of 50, the
  order volume of row 273 is \<open>50 + 100 * sin (2 * pi * 273 / 365)\<close>, which is negative (the
  sine is below \<open>- 1/2\<close> there).
\<close>

theorem C9_order_volume_counterexample:
  "column_value Order_Volume 273 (generate_fake_data 365 0 (constant_rng 0 0))
     = Some (50 + sin (273 * 2 * pi / 365) * 100)
   \<and> 50 + sin (273 * 2 * pi / 365) * 100 < (0 :: real)"
proof -
  let ?r = "constant_rng 0 0"
  have ret: "generate_fake_data 365 0 ?r = Inr (expected_frame 365 0 ?r)"
    by (simp add: generate_fake_data_returns)
  have len: "273 < length (Order_Volume (expected_frame 365 0 ?r))"
    by (simp add: length_order_volume_expected)
  have "Order_Volume (expected_frame 365 0 ?r) ! 273
        = real_of_int (randint_draw 50 500 (volume_src ?r) 273) + sin (real 273 * 2 * pi / 365) * 100"
    by (rule order_volume_expected) simp
  also have "\<dots> = 50 + sin (273 * 2 * pi / 365) * 100"
    by (simp add: randint_draw_def constant_rng_def)
  finally have val: "Order_Volume (expected_frame 365 0 ?r) ! 273
        = 50 + sin (273 * 2 * pi / 365) * 100" .
  have value_of: "column_value Order_Volume 273 (generate_fake_data 365 0 ?r)
     = Some (50 + sin (273 * 2 * pi / 365) * 100)"
    by (simp only: ret column_value_def sum.case len if_True val)
  have "sin (273 * 2 * pi / 365) = sin (2 * pi * 273 / 365)"
    by (simp add: mult.commute)
  with sin_day_273 have "sin (273 * 2 * pi / 365) * 100 < - 50"
    by simp
  then have negative: "50 + sin (273 * 2 * pi / 365) * 100 < (0 :: real)"
    by simp
  from value_of negative show ?thesis by (rule conjI)
qed

end
